theory Spec2Isabelle
  imports Main "HOL-Library.Sublist"
begin

section \<open>Existence filter mismatch capture\<close>

text \<open>
  A shallow embedding of \<^verbatim>\<open>captureExistenceFilterMismatches\<close> and
  \<^verbatim>\<open>createExistenceFilterMismatchInfoFrom\<close>.

  Conventions. A TypeScript \<^verbatim>\<open>number\<close> is a value of the type parameter \<open>'n\<close>:
  the code only copies numbers, so nothing depends on their representation. A thrown
  value is a value of the type parameter \<open>'e\<close>, and a call that may throw returns
  \<open>'e + 'a\<close> with \<open>Inl\<close> for the throw. An optional property (\<^verbatim>\<open>name?:\<close>) is an
  \<open>option\<close>. A string is a \<open>string\<close>; a template literal over strings is their
  concatenation.
\<close>

subsection \<open>Data model\<close>

text \<open>
  The document reference is declared outside the file under study; only its
  \<^verbatim>\<open>path\<close> property is read.
\<close>

record DocumentReference =
  path :: string

text \<open>
  \<^verbatim>\<open>ExistenceFilterMismatchInfoInternal\<close>, with its inline \<^verbatim>\<open>bloomFilter\<close>
  object type given a name of its own.
\<close>

record ('n, 'e) BloomFilterInternal =
  applied :: bool
  hashCount :: 'n
  bitmapLength :: 'n
  padding :: 'n
  mightContain :: "(string \<Rightarrow> 'e + bool) option"

record ('n, 'e) ExistenceFilterMismatchInfoInternal =
  localCacheCount :: 'n
  existenceFilterCount :: 'n
  projectId :: string
  databaseId :: string
  bloomFilter :: "('n, 'e) BloomFilterInternal option"

text \<open>
  \<^verbatim>\<open>ExistenceFilterMismatchInfo\<close>, the exported shape. The field names are those of
  the internal records; the unqualified names below denote the exported ones.
\<close>

record ('n, 'e) BloomFilter =
  applied :: bool
  hashCount :: 'n
  bitmapLength :: 'n
  padding :: 'n
  mightContain :: "DocumentReference \<Rightarrow> 'e + bool"

record ('n, 'e) ExistenceFilterMismatchInfo =
  localCacheCount :: 'n
  existenceFilterCount :: 'n
  bloomFilter :: "('n, 'e) BloomFilter option"

subsection \<open>Translation of a mismatch record\<close>

text \<open>
  \<^verbatim>\<open>internalBloomFilter.mightContain?.(key) ?? false\<close>: when the property is
  absent the optional call yields \<^verbatim>\<open>undefined\<close> without evaluating anything, and
  \<^verbatim>\<open>??\<close> replaces it by \<^verbatim>\<open>false\<close>; when it is present it is called, a boolean
  result passes through \<^verbatim>\<open>??\<close> unchanged and a throw propagates.
\<close>

definition createExistenceFilterMismatchInfoFrom ::
  "('n, 'e) ExistenceFilterMismatchInfoInternal \<Rightarrow> ('n, 'e) ExistenceFilterMismatchInfo" where
  "createExistenceFilterMismatchInfoFrom internalInfo =
     (let info = \<lparr>localCacheCount =
                    ExistenceFilterMismatchInfoInternal.localCacheCount internalInfo,
                  existenceFilterCount =
                    ExistenceFilterMismatchInfoInternal.existenceFilterCount internalInfo,
                  bloomFilter = None\<rparr>;
          internalBloomFilter = ExistenceFilterMismatchInfoInternal.bloomFilter internalInfo
      in case internalBloomFilter of
           None \<Rightarrow> info
         | Some ibf \<Rightarrow>
             info\<lparr>bloomFilter := Some
               \<lparr>applied = BloomFilterInternal.applied ibf,
                hashCount = BloomFilterInternal.hashCount ibf,
                bitmapLength = BloomFilterInternal.bitmapLength ibf,
                padding = BloomFilterInternal.padding ibf,
                mightContain = (\<lambda>documentRef.
                  case BloomFilterInternal.mightContain ibf of
                    None \<Rightarrow> Inr False
                  | Some m \<Rightarrow>
                      m (''projects/'' @ projectId internalInfo
                         @ ''/databases/'' @ databaseId internalInfo
                         @ ''/documents/'' @ path documentRef))\<rparr>\<rparr>)"

text \<open>
  The values of the examples: the record of the concrete scenario, whose predicate is
  \<^verbatim>\<open>k => k.endsWith("doc1")\<close>, the record of the round-trip example, whose
  predicate holds of one key only, and a record whose descriptor has no predicate.
\<close>

definition scenarioPredicate :: "string \<Rightarrow> string + bool" where
  "scenarioPredicate k = Inr (suffix ''doc1'' k)"

definition scenarioFilter :: "(int, string) BloomFilterInternal" where
  "scenarioFilter =
     \<lparr>BloomFilterInternal.applied = True, BloomFilterInternal.hashCount = 3,
      BloomFilterInternal.bitmapLength = 64, BloomFilterInternal.padding = 2,
      BloomFilterInternal.mightContain = Some scenarioPredicate\<rparr>"

definition scenarioInfo :: "(int, string) ExistenceFilterMismatchInfoInternal" where
  "scenarioInfo =
     \<lparr>ExistenceFilterMismatchInfoInternal.localCacheCount = 5,
      ExistenceFilterMismatchInfoInternal.existenceFilterCount = 6,
      projectId = ''p'', databaseId = ''d'',
      ExistenceFilterMismatchInfoInternal.bloomFilter = Some scenarioFilter\<rparr>"

definition roundTripPredicate :: "string \<Rightarrow> string + bool" where
  "roundTripPredicate k =
     Inr (k = ''projects/proj1/databases/(default)/documents/col/doc1'')"

definition roundTripFilter :: "(int, string) BloomFilterInternal" where
  "roundTripFilter =
     \<lparr>BloomFilterInternal.applied = True, BloomFilterInternal.hashCount = 3,
      BloomFilterInternal.bitmapLength = 64, BloomFilterInternal.padding = 2,
      BloomFilterInternal.mightContain = Some roundTripPredicate\<rparr>"

definition roundTripInfo :: "(int, string) ExistenceFilterMismatchInfoInternal" where
  "roundTripInfo =
     \<lparr>ExistenceFilterMismatchInfoInternal.localCacheCount = 1,
      ExistenceFilterMismatchInfoInternal.existenceFilterCount = 2,
      projectId = ''proj1'', databaseId = ''(default)'',
      ExistenceFilterMismatchInfoInternal.bloomFilter = Some roundTripFilter\<rparr>"

definition noPredicateFilter :: "(int, string) BloomFilterInternal" where
  "noPredicateFilter =
     \<lparr>BloomFilterInternal.applied = True, BloomFilterInternal.hashCount = 3,
      BloomFilterInternal.bitmapLength = 64, BloomFilterInternal.padding = 2,
      BloomFilterInternal.mightContain = None\<rparr>"

definition noPredicateInfo :: "(int, string) ExistenceFilterMismatchInfoInternal" where
  "noPredicateInfo =
     \<lparr>ExistenceFilterMismatchInfoInternal.localCacheCount = 1,
      ExistenceFilterMismatchInfoInternal.existenceFilterCount = 2,
      projectId = ''p'', databaseId = ''d'',
      ExistenceFilterMismatchInfoInternal.bloomFilter = Some noPredicateFilter\<rparr>"

subsection \<open>The hook registry\<close>

text \<open>
  Modelled from the spec: the \<^verbatim>\<open>TestingHooks\<close> registry, whose source is not
  part of the files under study. It holds the ordered list of subscriber entries; an
  entry pairs the identity it was registered under with its callback, so that
  registering one callback twice gives two entries. There is one registry in the
  process, which \<^verbatim>\<open>getOrCreateInstance()\<close> returns; it is created on first use,
  with no subscriber.
\<close>

record 'cb TestingHooks =
  subscribers :: "(nat \<times> 'cb) list"
  nextId :: nat

text \<open>
  Modelled from the spec: \<^verbatim>\<open>register(callback) -> unsubscribe\<close>, the method
  \<^verbatim>\<open>onExistenceFilterMismatch\<close> of the missing registry. It appends the callback to
  the subscriber list and returns the handle, here the identity of the new entry.
\<close>

definition onExistenceFilterMismatch ::
  "'cb \<Rightarrow> 'cb TestingHooks \<Rightarrow> nat \<times> 'cb TestingHooks" where
  "onExistenceFilterMismatch callback h =
     (nextId h,
      h\<lparr>subscribers := subscribers h @ [(nextId h, callback)], nextId := Suc (nextId h)\<rparr>)"

text \<open>
  Modelled from the spec: invoking the handle returned by the missing
  \<^verbatim>\<open>onExistenceFilterMismatch\<close>. It removes the corresponding entry if it is still
  present and does nothing otherwise; it has no failing branch.
\<close>

definition unsubscribe :: "nat \<Rightarrow> 'cb TestingHooks \<Rightarrow> 'cb TestingHooks" where
  "unsubscribe handle h = h\<lparr>subscribers := filter (\<lambda>(i, _). i \<noteq> handle) (subscribers h)\<rparr>"

subsection \<open>The capture function under cooperative scheduling\<close>

text \<open>
  An invocation of \<^verbatim>\<open>captureExistenceFilterMismatches\<close> runs in two atomic
  pieces. The first runs from the call to the \<^verbatim>\<open>await\<close>: it creates the
  \<^verbatim>\<open>results\<close> array, registers the closure that pushes to it, and calls
  \<^verbatim>\<open>callback\<close>. The invocation is then suspended, its locals kept in a frame,
  until the promise of \<^verbatim>\<open>callback()\<close> has settled; the second piece runs when the
  scheduler resumes it, in a job of its own: the \<^verbatim>\<open>finally\<close> block, then the
  \<^verbatim>\<open>return\<close> or the rethrow. Between the two pieces, and between the settling of
  the promise and the resumption, any other code may run.

  Arrays are objects shared by reference: the \<^verbatim>\<open>results\<close> array is reachable from
  the frame and from the closure held by the registry. The store \<open>heap\<close> maps the
  address of an array to its contents, and the closure
  \<^verbatim>\<open>onExistenceFilterMismatchCallback\<close> is represented by the address of the array
  it captured. What an invocation returns is the array itself, not a copy: \<open>returned\<close>
  keeps, for a finished invocation, either the thrown value or the address of the array
  with the result of the thunk, and the records the caller sees are the contents of the
  store at that address.
\<close>

record ('e, 'r) frame =
  results :: nat
  unregister :: nat
  awaited :: "('e + 'r) option"

record ('n, 'e, 'r) runtime =
  hooks :: "nat TestingHooks"
  heap :: "nat \<Rightarrow> ('n, 'e) ExistenceFilterMismatchInfo list"
  nextAddr :: nat
  frames :: "nat \<rightharpoonup> ('e, 'r) frame"
  returned :: "nat \<rightharpoonup> 'e + (nat \<times> 'r)"

definition initial :: "('n, 'e, 'r) runtime" where
  "initial = \<lparr>hooks = \<lparr>subscribers = [], nextId = 0\<rparr>, heap = (\<lambda>_. []), nextAddr = 0,
              frames = Map.empty, returned = Map.empty\<rparr>"

text \<open>The closure: \<^verbatim>\<open>results.push(createExistenceFilterMismatchInfoFrom(info))\<close>.\<close>

definition onExistenceFilterMismatchCallback ::
  "nat \<Rightarrow> ('n, 'e) ExistenceFilterMismatchInfoInternal \<Rightarrow> ('n, 'e, 'r) runtime
   \<Rightarrow> ('n, 'e, 'r) runtime" where
  "onExistenceFilterMismatchCallback resultsRef info s =
     s\<lparr>heap := (heap s)(resultsRef :=
          heap s resultsRef @ [createExistenceFilterMismatchInfoFrom info])\<rparr>"

text \<open>
  Modelled from the spec: \<^verbatim>\<open>publish(record)\<close>, the method
  \<^verbatim>\<open>notifyOnExistenceFilterMismatch\<close> of the missing registry. It invokes every
  currently registered callback, in registration order, with the record.
\<close>

definition notifyOnExistenceFilterMismatch ::
  "('n, 'e) ExistenceFilterMismatchInfoInternal \<Rightarrow> ('n, 'e, 'r) runtime
   \<Rightarrow> ('n, 'e, 'r) runtime" where
  "notifyOnExistenceFilterMismatch info s =
     fold (\<lambda>(_, callback). onExistenceFilterMismatchCallback callback info)
       (subscribers (hooks s)) s"

text \<open>
  The first piece of invocation \<open>k\<close>: \<^verbatim>\<open>const results = []\<close>, the registration,
  and the suspension at \<^verbatim>\<open>await callback()\<close>.
\<close>

definition captureExistenceFilterMismatches_call ::
  "nat \<Rightarrow> ('n, 'e, 'r) runtime \<Rightarrow> ('n, 'e, 'r) runtime" where
  "captureExistenceFilterMismatches_call k s =
     (let resultsRef = nextAddr s;
          s1 = s\<lparr>heap := (heap s)(resultsRef := []), nextAddr := Suc resultsRef\<rparr>;
          (handle, h) = onExistenceFilterMismatch resultsRef (hooks s1);
          s2 = s1\<lparr>hooks := h\<rparr>
      in s2\<lparr>frames := (frames s2)(k \<mapsto>
              \<lparr>results = resultsRef, unregister = handle, awaited = None\<rparr>)\<rparr>)"

text \<open>
  The second piece of invocation \<open>k\<close>, resumed with the outcome of the awaited
  promise: \<^verbatim>\<open>unregister()\<close> in the \<^verbatim>\<open>finally\<close> block, then either the rethrow of
  the thrown value or \<^verbatim>\<open>return [results, callbackResult]\<close>, the array by reference.
\<close>

definition captureExistenceFilterMismatches_resume ::
  "nat \<Rightarrow> ('e, 'r) frame \<Rightarrow> 'e + 'r \<Rightarrow> ('n, 'e, 'r) runtime \<Rightarrow> ('n, 'e, 'r) runtime" where
  "captureExistenceFilterMismatches_resume k f outcome s =
     (let s1 = s\<lparr>hooks := unsubscribe (unregister f) (hooks s)\<rparr>
      in s1\<lparr>frames := (frames s1)(k := None),
            returned := (returned s1)(k \<mapsto>
              (case outcome of
                 Inl e \<Rightarrow> Inl e
               | Inr callbackResult \<Rightarrow> Inr (results f, callbackResult)))\<rparr>)"

text \<open>
  What can happen, one atomic event at a time. \<open>Call k\<close>: invocation \<open>k\<close> starts
  and runs to its \<^verbatim>\<open>await\<close>. \<open>Notify who info\<close>: some code publishes a mismatch;
  \<open>who\<close> says which code (the thunk of an invocation, or a background action),
  which the registry cannot see. \<open>Settle k outcome\<close>: the thunk of invocation \<open>k\<close>
  has finished, its promise is fulfilled (\<open>Inr\<close>) or rejected (\<open>Inl\<close>).
  \<open>Resume k\<close>: the scheduler resumes invocation \<open>k\<close>, whose promise has settled.
  An event that is not enabled leaves the state unchanged. What the thunk publishes
  before its first suspension, in the job of the call, are the first events after
  \<open>Call k\<close>; a thunk that throws before returning a promise is \<open>Call k\<close> followed
  at once by \<open>Settle k\<close> and \<open>Resume k\<close>.
\<close>

datatype origin = Thunk nat | Background

datatype ('n, 'e, 'r) event =
    Call nat
  | Notify origin "('n, 'e) ExistenceFilterMismatchInfoInternal"
  | Settle nat "'e + 'r"
  | Resume nat

fun step :: "('n, 'e, 'r) event \<Rightarrow> ('n, 'e, 'r) runtime \<Rightarrow> ('n, 'e, 'r) runtime" where
  "step (Call k) s =
     (if frames s k \<noteq> None \<or> returned s k \<noteq> None then s
      else captureExistenceFilterMismatches_call k s)"
| "step (Notify who info) s = notifyOnExistenceFilterMismatch info s"
| "step (Settle k outcome) s =
     (case frames s k of
        None \<Rightarrow> s
      | Some f \<Rightarrow>
          (case awaited f of
             None \<Rightarrow> s\<lparr>frames := (frames s)(k \<mapsto> f\<lparr>awaited := Some outcome\<rparr>)\<rparr>
           | Some _ \<Rightarrow> s))"
| "step (Resume k) s =
     (case frames s k of
        None \<Rightarrow> s
      | Some f \<Rightarrow>
          (case awaited f of
             None \<Rightarrow> s
           | Some outcome \<Rightarrow> captureExistenceFilterMismatches_resume k f outcome s))"

definition exec :: "('n, 'e, 'r) event list \<Rightarrow> ('n, 'e, 'r) runtime \<Rightarrow> ('n, 'e, 'r) runtime" where
  "exec evs s = fold step evs s"

text \<open>
  A complete run of invocation \<open>k\<close>: the call, the events \<open>during\<close> the execution
  of the thunk, the settling of its promise with \<open>outcome\<close>, the events \<open>after\<close>
  it, before the scheduler resumes the invocation, and the resumption.
\<close>

definition captureExistenceFilterMismatches ::
  "nat \<Rightarrow> ('n, 'e, 'r) event list \<Rightarrow> 'e + 'r \<Rightarrow> ('n, 'e, 'r) event list
   \<Rightarrow> ('n, 'e, 'r) runtime \<Rightarrow> ('n, 'e, 'r) runtime" where
  "captureExistenceFilterMismatches k during outcome after s =
     exec (Call k # during @ Settle k outcome # after @ [Resume k]) s"

text \<open>The invocation an event belongs to, and the records a trace publishes.\<close>

fun about :: "('n, 'e, 'r) event \<Rightarrow> nat option" where
  "about (Call k) = Some k"
| "about (Notify who info) = None"
| "about (Settle k outcome) = Some k"
| "about (Resume k) = Some k"

fun published ::
  "('n, 'e, 'r) event list \<Rightarrow> ('n, 'e) ExistenceFilterMismatchInfoInternal list" where
  "published [] = []"
| "published (Notify who info # evs) = info # published evs"
| "published (ev # evs) = published evs"

text \<open>\<open>without k evs\<close>: no event of \<open>evs\<close> belongs to invocation \<open>k\<close>.\<close>

definition without :: "nat \<Rightarrow> ('n, 'e, 'r) event list \<Rightarrow> bool" where
  "without k evs = list_all (\<lambda>ev. about ev \<noteq> Some k) evs"

text \<open>
  The invariant of the states reachable from \<open>initial\<close>: every identity and address
  in use has been issued, no identity and no closure is registered twice, every
  suspended invocation is registered under its own handle with its own array, and two
  suspended invocations have different arrays.
\<close>

definition wf :: "('n, 'e, 'r) runtime \<Rightarrow> bool" where
  "wf s \<longleftrightarrow>
     (\<forall>(i, a) \<in> set (subscribers (hooks s)). i < nextId (hooks s) \<and> a < nextAddr s)
     \<and> distinct (map fst (subscribers (hooks s)))
     \<and> distinct (map snd (subscribers (hooks s)))
     \<and> (\<forall>k f. frames s k = Some f \<longrightarrow>
            (unregister f, results f) \<in> set (subscribers (hooks s)))
     \<and> (\<forall>k k' f f'. frames s k = Some f \<and> frames s k' = Some f' \<and> k \<noteq> k' \<longrightarrow>
            results f \<noteq> results f')"

section \<open>Translation: the exported record\<close>

text \<open>
  C3. For an internal record with project \<open>p\<close>, database \<open>d\<close> and a present
  predicate \<open>m\<close>, the exported \<^verbatim>\<open>mightContain\<close> applied to a document reference
  gives exactly what \<open>m\<close> gives on the key
  \<^verbatim>\<open>"projects/" + p + "/databases/" + d + "/documents/" + ref.path\<close>, a throw of
  \<open>m\<close> included.
\<close>

theorem mightContain_delegates:
  assumes "ExistenceFilterMismatchInfoInternal.bloomFilter internalInfo = Some ibf"
    and "BloomFilterInternal.mightContain ibf = Some m"
  shows "map_option (\<lambda>b. mightContain b documentRef)
           (bloomFilter (createExistenceFilterMismatchInfoFrom internalInfo))
         = Some (m (''projects/'' @ projectId internalInfo @ ''/databases/''
                    @ databaseId internalInfo @ ''/documents/'' @ path documentRef))"
  using assms by (simp add: createExistenceFilterMismatchInfoFrom_def Let_def)

theorem mightContain_delegates_witness:
  "map_option (\<lambda>b. mightContain b \<lparr>path = ''col/doc1''\<rparr>)
     (bloomFilter (createExistenceFilterMismatchInfoFrom roundTripInfo)) = Some (Inr True)
   \<and> map_option (\<lambda>b. mightContain b \<lparr>path = ''col/doc2''\<rparr>)
     (bloomFilter (createExistenceFilterMismatchInfoFrom roundTripInfo)) = Some (Inr False)"
  using mightContain_delegates
          [of roundTripInfo roundTripFilter roundTripPredicate "\<lparr>path = ''col/doc1''\<rparr>"]
        mightContain_delegates
          [of roundTripInfo roundTripFilter roundTripPredicate "\<lparr>path = ''col/doc2''\<rparr>"]
  by (simp add: roundTripInfo_def roundTripFilter_def roundTripPredicate_def)

text \<open>
  C4. When the descriptor is present and its predicate is absent, the exported
  \<^verbatim>\<open>mightContain\<close> returns \<^verbatim>\<open>false\<close> for every document reference, and it
  returns: the result is \<open>Inr False\<close>, never a throw.
\<close>

theorem absent_predicate_false:
  assumes "ExistenceFilterMismatchInfoInternal.bloomFilter internalInfo = Some ibf"
    and "BloomFilterInternal.mightContain ibf = None"
  shows "map_option (\<lambda>b. mightContain b documentRef)
           (bloomFilter (createExistenceFilterMismatchInfoFrom internalInfo))
         = Some (Inr False)"
  using assms by (simp add: createExistenceFilterMismatchInfoFrom_def Let_def)

theorem absent_predicate_false_witness:
  "map_option (\<lambda>b. mightContain b \<lparr>path = ''x/doc1''\<rparr>)
     (bloomFilter (createExistenceFilterMismatchInfoFrom noPredicateInfo)) = Some (Inr False)"
  using absent_predicate_false [of noPredicateInfo noPredicateFilter "\<lparr>path = ''x/doc1''\<rparr>"]
  by (simp add: noPredicateInfo_def noPredicateFilter_def)

text \<open>
  C6. The exported record has no \<^verbatim>\<open>projectId\<close> and no \<^verbatim>\<open>databaseId\<close>: it
  consists of the two counts and the optional descriptor and of nothing more, and the
  descriptor of its four metadata fields and the predicate and of nothing more. The two
  identifiers reach the exported record through the key built inside
  \<^verbatim>\<open>mightContain\<close> only: replacing them in the internal record replaces that
  function and leaves every other part of the exported record as it was.
\<close>

theorem identifiers_not_exposed:
  "createExistenceFilterMismatchInfoFrom (internalInfo\<lparr>projectId := p, databaseId := d\<rparr>)
     = (createExistenceFilterMismatchInfoFrom internalInfo)
         \<lparr>bloomFilter :=
            map_option
              (\<lambda>b. b\<lparr>mightContain := (\<lambda>documentRef.
                 case Option.bind (ExistenceFilterMismatchInfoInternal.bloomFilter internalInfo)
                        BloomFilterInternal.mightContain of
                   None \<Rightarrow> Inr False
                 | Some m \<Rightarrow>
                     m (''projects/'' @ p @ ''/databases/'' @ d
                        @ ''/documents/'' @ path documentRef))\<rparr>)
              (bloomFilter (createExistenceFilterMismatchInfoFrom internalInfo))\<rparr>
   \<and> ExistenceFilterMismatchInfo.more (createExistenceFilterMismatchInfoFrom internalInfo) = ()
   \<and> map_option BloomFilter.more
        (bloomFilter (createExistenceFilterMismatchInfoFrom internalInfo))
     = map_option (\<lambda>_. ()) (ExistenceFilterMismatchInfoInternal.bloomFilter internalInfo)"
proof (cases "ExistenceFilterMismatchInfoInternal.bloomFilter internalInfo")
  case None
  then show ?thesis
    by (simp add: createExistenceFilterMismatchInfoFrom_def Let_def)
next
  case (Some ibf)
  then show ?thesis
    by (cases "BloomFilterInternal.mightContain ibf")
       (simp_all add: createExistenceFilterMismatchInfoFrom_def Let_def)
qed

text \<open>
  C7. When the descriptor is present, \<^verbatim>\<open>applied\<close>, \<^verbatim>\<open>hashCount\<close>,
  \<^verbatim>\<open>bitmapLength\<close> and \<^verbatim>\<open>padding\<close> of the exported descriptor are those of the
  internal one, and \<^verbatim>\<open>localCacheCount\<close> and \<^verbatim>\<open>existenceFilterCount\<close> are those
  of the internal record.
\<close>

theorem descriptor_fields_copied:
  assumes "ExistenceFilterMismatchInfoInternal.bloomFilter internalInfo = Some ibf"
  shows "map_option applied (bloomFilter (createExistenceFilterMismatchInfoFrom internalInfo))
           = Some (BloomFilterInternal.applied ibf)
       \<and> map_option hashCount (bloomFilter (createExistenceFilterMismatchInfoFrom internalInfo))
           = Some (BloomFilterInternal.hashCount ibf)
       \<and> map_option bitmapLength
             (bloomFilter (createExistenceFilterMismatchInfoFrom internalInfo))
           = Some (BloomFilterInternal.bitmapLength ibf)
       \<and> map_option padding (bloomFilter (createExistenceFilterMismatchInfoFrom internalInfo))
           = Some (BloomFilterInternal.padding ibf)
       \<and> localCacheCount (createExistenceFilterMismatchInfoFrom internalInfo)
           = ExistenceFilterMismatchInfoInternal.localCacheCount internalInfo
       \<and> existenceFilterCount (createExistenceFilterMismatchInfoFrom internalInfo)
           = ExistenceFilterMismatchInfoInternal.existenceFilterCount internalInfo"
  using assms by (simp add: createExistenceFilterMismatchInfoFrom_def Let_def)

theorem descriptor_fields_copied_witness:
  "map_option applied (bloomFilter (createExistenceFilterMismatchInfoFrom scenarioInfo))
     = Some True
   \<and> map_option hashCount (bloomFilter (createExistenceFilterMismatchInfoFrom scenarioInfo))
     = Some 3
   \<and> map_option bitmapLength (bloomFilter (createExistenceFilterMismatchInfoFrom scenarioInfo))
     = Some 64
   \<and> map_option padding (bloomFilter (createExistenceFilterMismatchInfoFrom scenarioInfo))
     = Some 2
   \<and> localCacheCount (createExistenceFilterMismatchInfoFrom scenarioInfo) = 5
   \<and> existenceFilterCount (createExistenceFilterMismatchInfoFrom scenarioInfo) = 6"
  using descriptor_fields_copied [of scenarioInfo scenarioFilter]
  by (simp add: scenarioInfo_def scenarioFilter_def)

text \<open>
  C10. The exported record has a \<^verbatim>\<open>bloomFilter\<close> exactly when the internal record
  has one. The translation has no failing branch: it reads properties of its argument
  and builds object literals, so its value is an exported record for every internal
  record.
\<close>

theorem bloomFilter_present_iff:
  "(bloomFilter (createExistenceFilterMismatchInfoFrom internalInfo) = None)
     = (ExistenceFilterMismatchInfoInternal.bloomFilter internalInfo = None)"
  by (simp add: createExistenceFilterMismatchInfoFrom_def Let_def split: option.splits)

section \<open>The registry and the scheduler: auxiliary facts\<close>

lemma fold_callbacks_frame:
  "hooks (fold (\<lambda>(_, callback). onExistenceFilterMismatchCallback callback info) subs s) = hooks s"
  "nextAddr (fold (\<lambda>(_, callback). onExistenceFilterMismatchCallback callback info) subs s) = nextAddr s"
  "frames (fold (\<lambda>(_, callback). onExistenceFilterMismatchCallback callback info) subs s) = frames s"
  "returned (fold (\<lambda>(_, callback). onExistenceFilterMismatchCallback callback info) subs s) = returned s"
  by (induction subs arbitrary: s; simp add: onExistenceFilterMismatchCallback_def split: prod.splits)+

lemma fold_callbacks_heap:
  "distinct (map snd subs) \<Longrightarrow>
   heap (fold (\<lambda>(_, callback). onExistenceFilterMismatchCallback callback info) subs s) a
     = (if a \<in> snd ` set subs then heap s a @ [createExistenceFilterMismatchInfoFrom info]
        else heap s a)"
proof (induction subs arbitrary: s)
  case Nil
  then show ?case by simp
next
  case (Cons x subs)
  obtain i c where x: "x = (i, c)" by (cases x)
  from Cons.prems have d: "distinct (map snd subs)" and n: "c \<notin> snd ` set subs"
    by (auto simp: x)
  show ?case
    using Cons.IH [OF d, of "onExistenceFilterMismatchCallback c info s"] n
    by (auto simp: x onExistenceFilterMismatchCallback_def)
qed

lemma notify_frame:
  "hooks (notifyOnExistenceFilterMismatch info s) = hooks s"
  "nextAddr (notifyOnExistenceFilterMismatch info s) = nextAddr s"
  "frames (notifyOnExistenceFilterMismatch info s) = frames s"
  "returned (notifyOnExistenceFilterMismatch info s) = returned s"
  by (simp_all add: notifyOnExistenceFilterMismatch_def fold_callbacks_frame)

lemma notify_heap:
  "distinct (map snd (subscribers (hooks s))) \<Longrightarrow>
   heap (notifyOnExistenceFilterMismatch info s) a
     = (if a \<in> snd ` set (subscribers (hooks s))
        then heap s a @ [createExistenceFilterMismatchInfoFrom info] else heap s a)"
  by (simp add: notifyOnExistenceFilterMismatch_def fold_callbacks_heap)

lemma wf_initial: "wf initial"
  by (simp add: wf_def initial_def)

lemma wf_notify: "wf s \<Longrightarrow> wf (notifyOnExistenceFilterMismatch info s)"
  by (simp add: wf_def notify_frame)

lemma wf_registered:
  "wf s \<Longrightarrow> frames s k = Some f \<Longrightarrow> (unregister f, results f) \<in> set (subscribers (hooks s))"
  by (simp add: wf_def)

lemma wf_bounds:
  "wf s \<Longrightarrow> (i, a) \<in> set (subscribers (hooks s)) \<Longrightarrow> i < nextId (hooks s) \<and> a < nextAddr s"
  by (auto simp: wf_def)

lemma wf_frame_bounds:
  "wf s \<Longrightarrow> frames s k = Some f \<Longrightarrow> unregister f < nextId (hooks s) \<and> results f < nextAddr s"
  using wf_registered wf_bounds by blast

lemma wf_frames_apart:
  "wf s \<Longrightarrow> frames s k = Some f \<Longrightarrow> frames s k' = Some f' \<Longrightarrow> k \<noteq> k' \<Longrightarrow>
   results f \<noteq> results f' \<and> unregister f \<noteq> unregister f'"
proof -
  assume w: "wf s" and f: "frames s k = Some f" and f': "frames s k' = Some f'" and n: "k \<noteq> k'"
  from w f f' n have r: "results f \<noteq> results f'"
    unfolding wf_def by blast
  have m: "(unregister f, results f) \<in> set (subscribers (hooks s))"
          "(unregister f', results f') \<in> set (subscribers (hooks s))"
    using wf_registered [OF w] f f' by blast+
  from w have "distinct (map fst (subscribers (hooks s)))"
    by (simp add: wf_def)
  with m r have "unregister f \<noteq> unregister f'"
    by (metis eq_key_imp_eq_value)
  with r show ?thesis by simp
qed

lemma wf_call:
  assumes w: "wf s" and fr: "frames s k = None"
  shows "wf (captureExistenceFilterMismatches_call k s)"
proof -
  let ?subs = "subscribers (hooks s)"
  have b: "\<And>i a. (i, a) \<in> set ?subs \<Longrightarrow> i < nextId (hooks s) \<and> a < nextAddr s"
    using wf_bounds [OF w] by blast
  have fb: "\<And>j f. frames s j = Some f \<Longrightarrow> results f < nextAddr s"
    using wf_frame_bounds [OF w] by blast
  have d1: "distinct (map fst ?subs)" and d2: "distinct (map snd ?subs)"
    using w by (simp_all add: wf_def)
  have n1: "nextId (hooks s) \<notin> fst ` set ?subs" using b by force
  have n2: "nextAddr s \<notin> snd ` set ?subs" using b by force
  have reg: "\<And>j f. frames s j = Some f \<Longrightarrow> (unregister f, results f) \<in> set ?subs"
    using wf_registered [OF w] by blast
  have apart: "\<And>j j' f f'. frames s j = Some f \<Longrightarrow> frames s j' = Some f' \<Longrightarrow> j \<noteq> j'
                 \<Longrightarrow> results f \<noteq> results f'"
    using wf_frames_apart [OF w] by blast
  show ?thesis
    unfolding wf_def captureExistenceFilterMismatches_call_def onExistenceFilterMismatch_def Let_def
    apply (simp add: split_def d1 d2 n1 n2)
    apply (intro conjI allI impI ballI)
    subgoal for x using b [of "fst x" "snd x"] by simp
    subgoal for x using b [of "fst x" "snd x"] by simp
    subgoal using reg by blast
    subgoal using fb by force
    subgoal using fb by force
    subgoal using apart by blast
    done
qed

lemma wf_settle:
  assumes w: "wf s" and fr: "frames s k = Some f"
  shows "wf (s\<lparr>frames := (frames s)(k \<mapsto> f\<lparr>awaited := Some outcome\<rparr>)\<rparr>)"
proof -
  have reg: "\<And>j g. frames s j = Some g \<Longrightarrow> (unregister g, results g) \<in> set (subscribers (hooks s))"
    using wf_registered [OF w] by blast
  have apart: "\<And>j j' g g'. frames s j = Some g \<Longrightarrow> frames s j' = Some g' \<Longrightarrow> j \<noteq> j'
                 \<Longrightarrow> results g \<noteq> results g'"
    using wf_frames_apart [OF w] by blast
  from w have rest: "(\<forall>(i, a) \<in> set (subscribers (hooks s)). i < nextId (hooks s) \<and> a < nextAddr s)
     \<and> distinct (map fst (subscribers (hooks s)))
     \<and> distinct (map snd (subscribers (hooks s)))"
    by (simp add: wf_def)
  show ?thesis
    unfolding wf_def
    apply (simp add: rest)
    apply (intro conjI allI impI)
    subgoal using reg fr by blast
    subgoal using reg by blast
    subgoal using apart fr by (metis)
    subgoal using apart fr by (metis)
    subgoal using apart by blast
    done
qed

lemma wf_resume:
  assumes w: "wf s" and fr: "frames s k = Some f"
  shows "wf (captureExistenceFilterMismatches_resume k f outcome s)"
proof -
  let ?subs = "subscribers (hooks s)"
  have reg: "\<And>j g. frames s j = Some g \<Longrightarrow> (unregister g, results g) \<in> set ?subs"
    using wf_registered [OF w] by blast
  have apart: "\<And>j g. frames s j = Some g \<Longrightarrow> j \<noteq> k \<Longrightarrow> unregister g \<noteq> unregister f"
    using wf_frames_apart [OF w _ fr] by blast
  have apart2: "\<And>j j' g g'. frames s j = Some g \<Longrightarrow> frames s j' = Some g' \<Longrightarrow> j \<noteq> j'
                 \<Longrightarrow> results g \<noteq> results g'"
    using wf_frames_apart [OF w] by blast
  have b: "\<And>x. x \<in> set ?subs \<Longrightarrow> fst x < nextId (hooks s) \<and> snd x < nextAddr s"
    using w by (auto simp: wf_def)
  have d1: "distinct (map fst ?subs)" and d2: "distinct (map snd ?subs)"
    using w by (simp_all add: wf_def)
  show ?thesis
    unfolding wf_def captureExistenceFilterMismatches_resume_def unsubscribe_def Let_def
    apply (simp add: split_def distinct_map_filter d1 d2)
    apply (intro conjI allI impI ballI)
    subgoal for a b using b [of "(a, b)"] by simp
    subgoal for a b using b [of "(a, b)"] by simp
    subgoal using reg by blast
    subgoal using apart by blast
    subgoal using apart2 by blast
    done
qed

lemma wf_step: "wf s \<Longrightarrow> wf (step ev s)"
  by (cases ev) (auto simp: wf_call wf_notify wf_settle wf_resume split: option.splits)

lemma wf_exec: "wf s \<Longrightarrow> wf (exec evs s)"
  unfolding exec_def by (induction evs arbitrary: s) (simp_all add: wf_step)

lemma exec_append: "exec (xs @ ys) s = exec ys (exec xs s)"
  by (simp add: exec_def)

lemma exec_Cons: "exec (ev # evs) s = exec evs (step ev s)"
  by (simp add: exec_def)

lemma exec_Nil: "exec [] s = s"
  by (simp add: exec_def)

lemma published_append: "published (xs @ ys) = published xs @ published ys"
  by (induction xs rule: published.induct) simp_all

lemma step_other:
  assumes w: "wf s" and fr: "frames s k = Some f" and ab: "about ev \<noteq> Some k"
  shows "frames (step ev s) k = Some f"
    and "heap (step ev s) (results f)
           = heap s (results f) @ map createExistenceFilterMismatchInfoFrom (published [ev])"
    and "returned (step ev s) k = returned s k"
proof -
  have reg: "(unregister f, results f) \<in> set (subscribers (hooks s))"
    using wf_registered [OF w fr] .
  have lt: "results f < nextAddr s"
    using wf_frame_bounds [OF w fr] by simp
  have d2: "distinct (map snd (subscribers (hooks s)))"
    using w by (simp add: wf_def)
  have mem: "results f \<in> snd ` set (subscribers (hooks s))"
    using reg by force
  show "frames (step ev s) k = Some f"
    using ab
    by (cases ev)
       (auto simp: fr notify_frame captureExistenceFilterMismatches_call_def
          captureExistenceFilterMismatches_resume_def onExistenceFilterMismatch_def Let_def
          split: option.splits)
  show "heap (step ev s) (results f)
           = heap s (results f) @ map createExistenceFilterMismatchInfoFrom (published [ev])"
    using ab lt
    by (cases ev)
       (auto simp: notify_heap [OF d2] mem captureExistenceFilterMismatches_call_def
          captureExistenceFilterMismatches_resume_def onExistenceFilterMismatch_def Let_def
          split: option.splits)
  show "returned (step ev s) k = returned s k"
    using ab
    by (cases ev)
       (auto simp: notify_frame captureExistenceFilterMismatches_call_def
          captureExistenceFilterMismatches_resume_def onExistenceFilterMismatch_def Let_def
          split: option.splits)
qed

lemma exec_other:
  assumes "wf s" and "frames s k = Some f" and "\<forall>ev \<in> set evs. about ev \<noteq> Some k"
  shows "frames (exec evs s) k = Some f
       \<and> heap (exec evs s) (results f)
           = heap s (results f) @ map createExistenceFilterMismatchInfoFrom (published evs)
       \<and> returned (exec evs s) k = returned s k"
  using assms
proof (induction evs arbitrary: s)
  case Nil
  then show ?case by (simp add: exec_Nil)
next
  case (Cons ev evs)
  have ab: "about ev \<noteq> Some k" and rest: "\<forall>ev \<in> set evs. about ev \<noteq> Some k"
    using Cons.prems(3) by simp_all
  note st = step_other [OF Cons.prems(1) Cons.prems(2) ab]
  have pub: "published (ev # evs) = published [ev] @ published evs"
    using published_append [of "[ev]" evs] by simp
  show ?case
    using Cons.IH [OF wf_step [OF Cons.prems(1)] st(1) rest] st(2) st(3)
    by (simp add: exec_Cons pub)
qed

lemma step_untouched:
  assumes "about ev \<noteq> Some k"
  shows "returned (step ev s) k = returned s k"
    and "frames s k = None \<Longrightarrow> frames (step ev s) k = None"
  using assms
  by (cases ev;
      auto simp: notify_frame captureExistenceFilterMismatches_call_def
        captureExistenceFilterMismatches_resume_def onExistenceFilterMismatch_def Let_def
        split: option.splits)+

lemma exec_untouched:
  assumes "without k evs"
  shows "returned (exec evs s) k = returned s k
       \<and> (frames s k = None \<longrightarrow> frames (exec evs s) k = None)"
  using assms
proof (induction evs arbitrary: s)
  case Nil
  then show ?case by (simp add: exec_Nil)
next
  case (Cons ev evs)
  have ab: "about ev \<noteq> Some k" and rest: "without k evs"
    using Cons.prems by (simp_all add: without_def)
  show ?case
    using Cons.IH [OF rest, of "step ev s"] step_untouched [OF ab, of s]
    by (simp add: exec_Cons)
qed

lemma fresh_reachable:
  assumes "without k before"
  shows "wf (exec before initial)"
    and "frames (exec before initial) k = None"
    and "returned (exec before initial) k = None"
  using exec_untouched [OF assms, of initial] wf_exec [OF wf_initial, of before]
  by (simp_all add: initial_def)

lemma step_released:
  assumes w: "wf s" and lt: "a < nextAddr s"
    and out: "a \<notin> snd ` set (subscribers (hooks s))"
  shows "heap (step ev s) a = heap s a"
    and "a < nextAddr (step ev s)"
    and "a \<notin> snd ` set (subscribers (hooks (step ev s)))"
proof -
  have d2: "distinct (map snd (subscribers (hooks s)))"
    using w by (simp add: wf_def)
  show "heap (step ev s) a = heap s a"
    using lt out
    by (cases ev)
       (auto simp: notify_heap [OF d2] captureExistenceFilterMismatches_call_def
          captureExistenceFilterMismatches_resume_def onExistenceFilterMismatch_def Let_def
          split: option.splits)
  show "a < nextAddr (step ev s)"
    using lt
    by (cases ev)
       (auto simp: notify_frame captureExistenceFilterMismatches_call_def
          captureExistenceFilterMismatches_resume_def onExistenceFilterMismatch_def Let_def
          split: option.splits)
  show "a \<notin> snd ` set (subscribers (hooks (step ev s)))"
    using lt out
    by (cases ev)
       (auto simp: notify_frame captureExistenceFilterMismatches_call_def
          captureExistenceFilterMismatches_resume_def onExistenceFilterMismatch_def
          unsubscribe_def Let_def
          split: option.splits)
qed

lemma exec_released:
  assumes "wf s" and "a < nextAddr s" and "a \<notin> snd ` set (subscribers (hooks s))"
  shows "heap (exec evs s) a = heap s a"
  using assms
proof (induction evs arbitrary: s)
  case Nil
  then show ?case by (simp add: exec_Nil)
next
  case (Cons ev evs)
  note st = step_released [OF Cons.prems, of ev]
  show ?case
    using Cons.IH [OF wf_step [OF Cons.prems(1)] st(2) st(3)] st(1)
    by (simp add: exec_Cons)
qed

lemma distinct_snd_unique:
  "distinct (map snd xs) \<Longrightarrow> (i, a) \<in> set xs \<Longrightarrow> (j, a) \<in> set xs \<Longrightarrow> i = j"
  by (induction xs) force+

lemma capture_run:
  assumes w: "wf s" and f0: "frames s k = None" and r0: "returned s k = None"
    and d: "without k during" and a: "without k after"
  shows "returned (captureExistenceFilterMismatches k during outcome after s) k
           = Some (case outcome of Inl e \<Rightarrow> Inl e | Inr r \<Rightarrow> Inr (nextAddr s, r))"
    and "heap (captureExistenceFilterMismatches k during outcome after s) (nextAddr s)
           = map createExistenceFilterMismatchInfoFrom (published during @ published after)"
    and "frames (captureExistenceFilterMismatches k during outcome after s) k = None"
    and "\<forall>(i, c) \<in> set (subscribers (hooks
            (captureExistenceFilterMismatches k during outcome after s))).
           i \<noteq> nextId (hooks s) \<and> c \<noteq> nextAddr s"
    and "wf (captureExistenceFilterMismatches k during outcome after s)"
    and "nextAddr s < nextAddr (captureExistenceFilterMismatches k during outcome after s)"
proof -
  define fr :: "('b, 'c) frame"
    where "fr = \<lparr>results = nextAddr s, unregister = nextId (hooks s), awaited = None\<rparr>"
  define s1 where "s1 = step (Call k) s"
  define s2 where "s2 = exec during s1"
  define s3 where "s3 = step (Settle k outcome) s2"
  define s4 where "s4 = exec after s3"
  define s5 where "s5 = step (Resume k) s4"
  have fin: "captureExistenceFilterMismatches k during outcome after s = s5"
    by (simp add: captureExistenceFilterMismatches_def exec_Cons exec_append exec_Nil
          s1_def s2_def s3_def s4_def s5_def)
  have d': "\<forall>ev \<in> set during. about ev \<noteq> Some k" and a': "\<forall>ev \<in> set after. about ev \<noteq> Some k"
    using d a by (simp_all add: without_def list_all_iff)
  have s1: "s1 = captureExistenceFilterMismatches_call k s"
    by (simp add: s1_def f0 r0)
  have w1: "wf s1" unfolding s1 by (rule wf_call [OF w f0])
  have f1: "frames s1 k = Some fr"
    by (simp add: s1 fr_def captureExistenceFilterMismatches_call_def
          onExistenceFilterMismatch_def Let_def)
  have h1: "heap s1 (results fr) = []"
    by (simp add: s1 fr_def captureExistenceFilterMismatches_call_def
          onExistenceFilterMismatch_def Let_def)
  have r1: "returned s1 k = None"
    by (simp add: s1 r0 captureExistenceFilterMismatches_call_def
          onExistenceFilterMismatch_def Let_def)
  note e2 = exec_other [OF w1 f1 d', folded s2_def]
  have w2: "wf s2" unfolding s2_def by (rule wf_exec [OF w1])
  have f2: "frames s2 k = Some fr" using e2 by simp
  have h2: "heap s2 (results fr) = map createExistenceFilterMismatchInfoFrom (published during)"
    using e2 h1 by simp
  have r2: "returned s2 k = None" using e2 r1 by simp
  have s3: "s3 = s2\<lparr>frames := (frames s2)(k \<mapsto> fr\<lparr>awaited := Some outcome\<rparr>)\<rparr>"
    by (simp add: s3_def f2 fr_def)
  have w3: "wf s3" unfolding s3 by (rule wf_settle [OF w2 f2])
  have f3: "frames s3 k = Some (fr\<lparr>awaited := Some outcome\<rparr>)" by (simp add: s3)
  have h3: "heap s3 (results fr) = map createExistenceFilterMismatchInfoFrom (published during)"
    by (simp add: s3 h2)
  have r3: "returned s3 k = None" by (simp add: s3 r2)
  note e4 = exec_other [OF w3 f3 a', folded s4_def]
  have w4: "wf s4" unfolding s4_def by (rule wf_exec [OF w3])
  have f4: "frames s4 k = Some (fr\<lparr>awaited := Some outcome\<rparr>)" using e4 by simp
  have h4: "heap s4 (results fr)
              = map createExistenceFilterMismatchInfoFrom (published during @ published after)"
    using e4 h3 by simp
  have s5: "s5 = captureExistenceFilterMismatches_resume k (fr\<lparr>awaited := Some outcome\<rparr>) outcome s4"
    by (simp add: s5_def f4)
  show "returned (captureExistenceFilterMismatches k during outcome after s) k
           = Some (case outcome of Inl e \<Rightarrow> Inl e | Inr r \<Rightarrow> Inr (nextAddr s, r))"
    by (simp add: fin s5 captureExistenceFilterMismatches_resume_def Let_def fr_def
          split: sum.splits)
  show "heap (captureExistenceFilterMismatches k during outcome after s) (nextAddr s)
           = map createExistenceFilterMismatchInfoFrom (published during @ published after)"
    using h4
    by (simp add: fin s5 captureExistenceFilterMismatches_resume_def Let_def fr_def)
  show "frames (captureExistenceFilterMismatches k during outcome after s) k = None"
    by (simp add: fin s5 captureExistenceFilterMismatches_resume_def Let_def)
  show "wf (captureExistenceFilterMismatches k during outcome after s)"
    unfolding fin s5 by (rule wf_resume [OF w4 f4])
  have reg: "(nextId (hooks s), nextAddr s) \<in> set (subscribers (hooks s4))"
    using wf_registered [OF w4 f4] by (simp add: fr_def)
  show "nextAddr s < nextAddr (captureExistenceFilterMismatches k during outcome after s)"
    using wf_bounds [OF w4 reg]
    by (simp add: fin s5 captureExistenceFilterMismatches_resume_def Let_def)
  have d2: "distinct (map snd (subscribers (hooks s4)))"
    using w4 by (simp add: wf_def)
  have uniq: "\<And>i. (i, nextAddr s) \<in> set (subscribers (hooks s4)) \<Longrightarrow> i = nextId (hooks s)"
  proof -
    fix i
    assume "(i, nextAddr s) \<in> set (subscribers (hooks s4))"
    with reg d2 show "i = nextId (hooks s)"
      by (metis distinct_snd_unique)
  qed
  show "\<forall>(i, c) \<in> set (subscribers (hooks
            (captureExistenceFilterMismatches k during outcome after s))).
           i \<noteq> nextId (hooks s) \<and> c \<noteq> nextAddr s"
    using uniq
    by (auto simp: fin s5 captureExistenceFilterMismatches_resume_def unsubscribe_def Let_def fr_def)
qed

lemmas run_simps =
  exec_def captureExistenceFilterMismatches_def captureExistenceFilterMismatches_call_def
  captureExistenceFilterMismatches_resume_def onExistenceFilterMismatch_def unsubscribe_def
  notifyOnExistenceFilterMismatch_def onExistenceFilterMismatchCallback_def initial_def Let_def

section \<open>The capture function\<close>

text \<open>
  In the theorems below an invocation \<open>k\<close> runs after an arbitrary history \<open>before\<close>
  of the system, started in the state \<open>initial\<close>; the events \<open>during\<close> the execution
  of its thunk and the events \<open>after\<close> it, up to the resumption, are arbitrary events of
  other code: publications by anyone, and calls, settlings and resumptions of other
  invocations. Invocation \<open>k\<close> itself is called once, settled once and resumed once,
  which is what \<open>without k\<close> says of the three traces.
\<close>

text \<open>
  C1, as the code has it. When the thunk succeeds with \<open>r\<close>, the invocation returns
  the pair of its \<^verbatim>\<open>results\<close> array and \<open>r\<close>, and the array holds the translated
  records of the mismatches published between the registration and the resumption of the
  invocation, in the order of their publication: those published during the execution
  of the thunk, followed by those published between the settling of its promise and the
  resumption. When nothing is published in the second span, these are the records of the
  mismatches published during the execution of the thunk; when nothing is published in
  either, the array is empty: it is an array, never a missing value.
\<close>

theorem capture_returns_records_and_result:
  assumes "without k before" and "without k during" and "without k after"
  shows "returned (captureExistenceFilterMismatches k during (Inr r) after
                     (exec before initial)) k
           = Some (Inr (nextAddr (exec before initial), r))
       \<and> heap (captureExistenceFilterMismatches k during (Inr r) after (exec before initial))
            (nextAddr (exec before initial))
           = map createExistenceFilterMismatchInfoFrom (published during @ published after)
       \<and> (published after = [] \<longrightarrow>
            heap (captureExistenceFilterMismatches k during (Inr r) after (exec before initial))
              (nextAddr (exec before initial))
              = map createExistenceFilterMismatchInfoFrom (published during))
       \<and> (published during = [] \<and> published after = [] \<longrightarrow>
            heap (captureExistenceFilterMismatches k during (Inr r) after (exec before initial))
              (nextAddr (exec before initial)) = [])"
  using capture_run(1,2) [OF fresh_reachable [OF assms(1)] assms(2) assms(3), of "Inr r"]
  by simp

theorem capture_returns_records_and_result_witness:
  "returned (captureExistenceFilterMismatches 0 [Notify (Thunk 0) scenarioInfo] (Inr 42) []
               (exec [] (initial :: (int, string, int) runtime))) 0
     = Some (Inr (0, 42))
   \<and> heap (captureExistenceFilterMismatches 0 [Notify (Thunk 0) scenarioInfo] (Inr 42) []
               (exec [] (initial :: (int, string, int) runtime))) 0
     = [createExistenceFilterMismatchInfoFrom scenarioInfo]
   \<and> returned (captureExistenceFilterMismatches 0 [] (Inr 42) []
               (exec [] (initial :: (int, string, int) runtime))) 0
     = Some (Inr (0, 42))
   \<and> heap (captureExistenceFilterMismatches 0 [] (Inr 42) []
               (exec [] (initial :: (int, string, int) runtime))) 0
     = []"
  using capture_returns_records_and_result
          [of 0 "[]" "[Notify (Thunk 0) scenarioInfo]" "[]" 42]
        capture_returns_records_and_result
          [of 0 "[] :: (int, string, int) event list" "[]" "[]" 42]
  by (simp add: without_def exec_def initial_def)

text \<open>
  C1, as it is stated, fails. The thunk publishes nothing and succeeds with 42; before
  the invocation is resumed, other code publishes a mismatch, as a job queued ahead of
  the continuation of the \<^verbatim>\<open>await\<close> does. No mismatch was published during the
  execution of the thunk, and the returned array is not empty: it holds the record
  published after the thunk had finished.
\<close>

theorem capture_returns_records_and_result_counterexample:
  "published ([] :: (int, string, int) event list) = []
   \<and> returned (captureExistenceFilterMismatches 0 [] (Inr 42) [Notify Background roundTripInfo]
                 (initial :: (int, string, int) runtime)) 0
       = Some (Inr (0, 42))
   \<and> heap (captureExistenceFilterMismatches 0 [] (Inr 42) [Notify Background roundTripInfo]
             (initial :: (int, string, int) runtime)) 0
       = [createExistenceFilterMismatchInfoFrom roundTripInfo]
   \<and> heap (captureExistenceFilterMismatches 0 [] (Inr 42) [Notify Background roundTripInfo]
             (initial :: (int, string, int) runtime)) 0
       \<noteq> []"
  by (simp add: run_simps)

text \<open>
  C2. When the thunk fails with \<open>e\<close>, the subscriber that the invocation registered at
  its call is no longer registered when the invocation has finished, neither under its
  handle nor with its closure; the invocation is over, and what it hands to its caller is
  the thrown value \<open>e\<close> itself, with no array.
\<close>

theorem capture_failure_releases_and_rethrows:
  assumes "without k before" and "without k during" and "without k after"
  shows "(nextId (hooks (exec before initial)), nextAddr (exec before initial))
           \<in> set (subscribers (hooks (step (Call k) (exec before initial))))
       \<and> nextId (hooks (exec before initial))
           \<notin> fst ` set (subscribers (hooks
                 (captureExistenceFilterMismatches k during (Inl e) after (exec before initial))))
       \<and> nextAddr (exec before initial)
           \<notin> snd ` set (subscribers (hooks
                 (captureExistenceFilterMismatches k during (Inl e) after (exec before initial))))
       \<and> frames (captureExistenceFilterMismatches k during (Inl e) after (exec before initial)) k
           = None
       \<and> returned (captureExistenceFilterMismatches k during (Inl e) after
                     (exec before initial)) k
           = Some (Inl e)"
proof -
  note fr = fresh_reachable [OF assms(1)]
  note run = capture_run [OF fr assms(2) assms(3), of "Inl e"]
  have "(nextId (hooks (exec before initial)), nextAddr (exec before initial))
           \<in> set (subscribers (hooks (step (Call k) (exec before initial))))"
    by (simp add: fr captureExistenceFilterMismatches_call_def onExistenceFilterMismatch_def
          Let_def)
  moreover have "nextId (hooks (exec before initial))
           \<notin> fst ` set (subscribers (hooks
                 (captureExistenceFilterMismatches k during (Inl e) after (exec before initial))))"
    using run(4) by force
  moreover have "nextAddr (exec before initial)
           \<notin> snd ` set (subscribers (hooks
                 (captureExistenceFilterMismatches k during (Inl e) after (exec before initial))))"
    using run(4) by force
  ultimately show ?thesis
    using run(1) run(3) by simp
qed

theorem capture_failure_releases_and_rethrows_witness:
  "(1, 1) \<in> set (subscribers (hooks (step (Call 0)
       (exec [Call 1] (initial :: (int, string, int) runtime)))))
   \<and> subscribers (hooks (captureExistenceFilterMismatches 0 [Notify (Thunk 0) scenarioInfo]
         (Inl ''boom'') [] (exec [Call 1] (initial :: (int, string, int) runtime)))) = [(0, 0)]
   \<and> frames (captureExistenceFilterMismatches 0 [Notify (Thunk 0) scenarioInfo]
         (Inl ''boom'') [] (exec [Call 1] (initial :: (int, string, int) runtime))) 0 = None
   \<and> returned (captureExistenceFilterMismatches 0 [Notify (Thunk 0) scenarioInfo]
         (Inl ''boom'') [] (exec [Call 1] (initial :: (int, string, int) runtime))) 0
       = Some (Inl ''boom'')"
  using capture_failure_releases_and_rethrows
          [of 0 "[Call 1] :: (int, string, int) event list" "[Notify (Thunk 0) scenarioInfo]" "[]"
              "''boom''"]
  by (simp add: without_def run_simps)

text \<open>
  C5, as the code has it. Two invocations that are suspended at the same time have
  different \<^verbatim>\<open>results\<close> arrays and different subscriptions. The registry delivers
  a publication to every registered subscriber and does not know which thunk caused it:
  a mismatch published while both invocations are suspended is appended to both arrays.
  So the length of the array an invocation returns is the number of mismatches published
  between its registration and its resumption, by whichever code.
\<close>

theorem concurrent_captures_broadcast:
  "(frames (exec tr initial) A = Some fa \<and> frames (exec tr initial) B = Some fb \<and> A \<noteq> B
      \<longrightarrow>
      results fa \<noteq> results fb \<and> unregister fa \<noteq> unregister fb
      \<and> heap (step (Notify who info) (exec tr initial)) (results fa)
          = heap (exec tr initial) (results fa) @ [createExistenceFilterMismatchInfoFrom info]
      \<and> heap (step (Notify who info) (exec tr initial)) (results fb)
          = heap (exec tr initial) (results fb) @ [createExistenceFilterMismatchInfoFrom info])
   \<and> (without B before \<and> without B during \<and> without B after
      \<longrightarrow>
      length (heap (captureExistenceFilterMismatches B during (Inr r) after
                      (exec before initial)) (nextAddr (exec before initial)))
        = length (published during) + length (published after))"
proof -
  have w: "wf (exec tr initial)"
    by (rule wf_exec [OF wf_initial])
  have d2: "distinct (map snd (subscribers (hooks (exec tr initial))))"
    using w by (simp add: wf_def)
  have apart: "results fa \<noteq> results fb \<and> unregister fa \<noteq> unregister fb
      \<and> heap (step (Notify who info) (exec tr initial)) (results fa)
          = heap (exec tr initial) (results fa) @ [createExistenceFilterMismatchInfoFrom info]
      \<and> heap (step (Notify who info) (exec tr initial)) (results fb)
          = heap (exec tr initial) (results fb) @ [createExistenceFilterMismatchInfoFrom info]"
    if fa: "frames (exec tr initial) A = Some fa" and fb: "frames (exec tr initial) B = Some fb"
      and ne: "A \<noteq> B"
  proof -
    have ma: "results fa \<in> snd ` set (subscribers (hooks (exec tr initial)))"
      using wf_registered [OF w fa] by force
    have mb: "results fb \<in> snd ` set (subscribers (hooks (exec tr initial)))"
      using wf_registered [OF w fb] by force
    show ?thesis
      using wf_frames_apart [OF w fa fb ne]
      by (simp add: notify_heap [OF d2] ma mb)
  qed
  have count: "length (heap (captureExistenceFilterMismatches B during (Inr r) after
                      (exec before initial)) (nextAddr (exec before initial)))
        = length (published during) + length (published after)"
    if b: "without B before" and d: "without B during" and a: "without B after"
    using capture_run(2) [OF fresh_reachable [OF b] d a, of "Inr r"]
    by simp
  from apart count show ?thesis
    by blast
qed

theorem concurrent_captures_broadcast_witness:
  "frames (exec [Call 0, Call 1] (initial :: (int, string, int) runtime)) 0
     = Some \<lparr>results = 0, unregister = 0, awaited = None\<rparr>
   \<and> frames (exec [Call 0, Call 1] (initial :: (int, string, int) runtime)) 1
     = Some \<lparr>results = 1, unregister = 1, awaited = None\<rparr>
   \<and> heap (step (Notify (Thunk 0) scenarioInfo)
        (exec [Call 0, Call 1] (initial :: (int, string, int) runtime))) 0
     = [createExistenceFilterMismatchInfoFrom scenarioInfo]
   \<and> heap (step (Notify (Thunk 0) scenarioInfo)
        (exec [Call 0, Call 1] (initial :: (int, string, int) runtime))) 1
     = [createExistenceFilterMismatchInfoFrom scenarioInfo]
   \<and> length (heap (captureExistenceFilterMismatches 1 [Notify (Thunk 0) scenarioInfo] (Inr 20) []
        (exec [Call 0] (initial :: (int, string, int) runtime)))
        (nextAddr (exec [Call 0] (initial :: (int, string, int) runtime)))) = 1"
proof -
  have a: "frames (exec [Call 0, Call 1] (initial :: (int, string, int) runtime)) 0
     = Some \<lparr>results = 0, unregister = 0, awaited = None\<rparr>"
    by (simp add: run_simps)
  have b: "frames (exec [Call 0, Call 1] (initial :: (int, string, int) runtime)) 1
     = Some \<lparr>results = 1, unregister = 1, awaited = None\<rparr>"
    by (simp add: run_simps)
  have h: "heap (exec [Call 0, Call 1] (initial :: (int, string, int) runtime)) 0 = []"
          "heap (exec [Call 0, Call 1] (initial :: (int, string, int) runtime)) 1 = []"
    by (simp_all add: run_simps)
  have f: "without 1 ([Call 0] :: (int, string, int) event list)"
          "without 1 ([Notify (Thunk 0) scenarioInfo] :: (int, string, int) event list)"
          "without 1 ([] :: (int, string, int) event list)"
    by (simp_all add: without_def)
  show ?thesis
    using concurrent_captures_broadcast
            [of "[Call 0, Call 1] :: (int, string, int) event list" 0 "\<lparr>results = 0, unregister = 0, awaited = None\<rparr>"
                1 "\<lparr>results = 1, unregister = 1, awaited = None\<rparr>"
                "Thunk 0" scenarioInfo "[Call 0] :: (int, string, int) event list"
                "[Notify (Thunk 0) scenarioInfo]" "[]" 20]
          a b h f
    by simp
qed

text \<open>
  C5, as it is stated, fails. Invocation 0 is called, then invocation 1; both thunks
  are waiting, as in
  \<^verbatim>\<open>Promise.all([capture(async () => { await tick(); publish(info); return 10; }),
               capture(async () => { await tick(); await tick(); return 20; })])\<close>.
  The thunk of invocation 0 publishes one mismatch and the thunk of invocation 1 none;
  both thunks finish and both invocations are resumed. The array returned by invocation
  1 holds the record too: its length is 1, not 0.
\<close>

theorem concurrent_captures_counterexample:
  "returned (exec [Call 0, Call 1, Notify (Thunk 0) scenarioInfo,
                   Settle 0 (Inr 10), Settle 1 (Inr 20), Resume 0, Resume 1]
              (initial :: (int, string, int) runtime)) 0
     = Some (Inr (0, 10))
   \<and> heap (exec [Call 0, Call 1, Notify (Thunk 0) scenarioInfo,
                   Settle 0 (Inr 10), Settle 1 (Inr 20), Resume 0, Resume 1]
              (initial :: (int, string, int) runtime)) 0
     = [createExistenceFilterMismatchInfoFrom scenarioInfo]
   \<and> returned (exec [Call 0, Call 1, Notify (Thunk 0) scenarioInfo,
                   Settle 0 (Inr 10), Settle 1 (Inr 20), Resume 0, Resume 1]
              (initial :: (int, string, int) runtime)) 1
     = Some (Inr (1, 20))
   \<and> length (heap (exec [Call 0, Call 1, Notify (Thunk 0) scenarioInfo,
                   Settle 0 (Inr 10), Settle 1 (Inr 20), Resume 0, Resume 1]
              (initial :: (int, string, int) runtime)) 1)
     = 1"
  by (simp add: run_simps)

text \<open>
  C8, as the code has it. The capture window of an invocation runs from its
  registration, just before the thunk is invoked, to its \<^verbatim>\<open>finally\<close> block, which
  runs when the invocation is resumed. The returned array holds the records of exactly
  the mismatches published in that window: those published during the execution of the
  thunk and those published between the settling of the thunk's promise and the
  resumption. A mismatch published before the call or after the resumption is not in
  the array, whatever runs \<open>later\<close>.
\<close>

theorem capture_window:
  assumes "without k before" and "without k during" and "without k after"
    and "without k later"
  shows "returned (exec (before @ Call k # during @ Settle k (Inr r) # after @ Resume k # later)
                     initial) k
           = Some (Inr (nextAddr (exec before initial), r))
       \<and> heap (exec (before @ Call k # during @ Settle k (Inr r) # after @ Resume k # later)
                  initial) (nextAddr (exec before initial))
           = map createExistenceFilterMismatchInfoFrom (published during @ published after)"
proof -
  let ?fin = "captureExistenceFilterMismatches k during (Inr r) after (exec before initial)"
  have split: "exec (before @ Call k # during @ Settle k (Inr r) # after @ Resume k # later) initial
      = exec later ?fin"
    by (simp add: captureExistenceFilterMismatches_def exec_def)
  note run = capture_run [OF fresh_reachable [OF assms(1)] assms(2) assms(3), of "Inr r"]
  have out: "nextAddr (exec before initial) \<notin> snd ` set (subscribers (hooks ?fin))"
    using run(4) by force
  have "heap (exec later ?fin) (nextAddr (exec before initial))
          = heap ?fin (nextAddr (exec before initial))"
    by (rule exec_released [OF run(5) run(6) out])
  then show ?thesis
    using exec_untouched [OF assms(4), of ?fin] run(1) run(2)
    by (simp add: split)
qed

theorem capture_window_witness:
  "returned (exec ([Notify Background roundTripInfo] @ Call 0 # [Notify (Thunk 0) scenarioInfo]
                     @ Settle 0 (Inr 42) # [Notify Background noPredicateInfo]
                     @ Resume 0 # [Notify Background roundTripInfo])
              (initial :: (int, string, int) runtime)) 0
     = Some (Inr (0, 42))
   \<and> heap (exec ([Notify Background roundTripInfo] @ Call 0 # [Notify (Thunk 0) scenarioInfo]
                     @ Settle 0 (Inr 42) # [Notify Background noPredicateInfo]
                     @ Resume 0 # [Notify Background roundTripInfo])
              (initial :: (int, string, int) runtime)) 0
     = [createExistenceFilterMismatchInfoFrom scenarioInfo,
        createExistenceFilterMismatchInfoFrom noPredicateInfo]"
  using capture_window
          [of 0 "[Notify Background roundTripInfo]" "[Notify (Thunk 0) scenarioInfo]"
              "[Notify Background noPredicateInfo]" "[Notify Background roundTripInfo]" 42]
  by (simp add: without_def exec_def initial_def notifyOnExistenceFilterMismatch_def)

text \<open>
  C8, as it is stated, fails. An \<^verbatim>\<open>await\<close> never continues in the job that settles
  the awaited promise: the continuation is queued behind the jobs already waiting. In
  \<^verbatim>\<open>capture(async () => { Promise.resolve().then(() => publish(info)); return 42; })\<close>
  the thunk queues a detached action and returns; its promise is fulfilled; the queued
  action runs and publishes; then the invocation is resumed and unregisters. The
  mismatch was published after the thunk had returned control, and it is in the array.
\<close>

theorem capture_window_counterexample:
  "returned (exec [Call 0, Settle 0 (Inr 42), Notify Background scenarioInfo, Resume 0]
              (initial :: (int, string, int) runtime)) 0
     = Some (Inr (0, 42))
   \<and> heap (exec [Call 0, Settle 0 (Inr 42), Notify Background scenarioInfo, Resume 0]
              (initial :: (int, string, int) runtime)) 0
     = [createExistenceFilterMismatchInfoFrom scenarioInfo]"
  by (simp add: run_simps)

section \<open>The registry\<close>

text \<open>
  C9. Invoking a handle a second time, or any number of further times, changes nothing:
  the registry, and so its subscriber list, is what it was after the first invocation.
  After the first invocation no entry has the identity of the handle, and invoking a
  handle whose entry is not in the list leaves the registry as it is, whatever was
  registered or removed in between. Invoking a handle has no failing branch.
\<close>

theorem unsubscribe_idempotent:
  "unsubscribe handle (unsubscribe handle h) = unsubscribe handle h
   \<and> (unsubscribe handle ^^ Suc n) h = unsubscribe handle h
   \<and> handle \<notin> fst ` set (subscribers (unsubscribe handle h))
   \<and> (handle \<notin> fst ` set (subscribers h) \<longrightarrow> unsubscribe handle h = h)"
proof -
  have once: "\<And>g :: 'a TestingHooks.
                unsubscribe handle (unsubscribe handle g) = unsubscribe handle g"
    by (simp add: unsubscribe_def)
  have many: "(unsubscribe handle ^^ Suc n) h = unsubscribe handle h"
    by (induction n) (simp_all add: once)
  have gone: "handle \<notin> fst ` set (subscribers (unsubscribe handle h))"
    by (auto simp: unsubscribe_def)
  have noop: "handle \<notin> fst ` set (subscribers h) \<longrightarrow> unsubscribe handle h = h"
  proof
    assume "handle \<notin> fst ` set (subscribers h)"
    then have "filter (\<lambda>(i, _). i \<noteq> handle) (subscribers h) = subscribers h"
      by (force simp: filter_id_conv)
    then show "unsubscribe handle h = h"
      by (simp add: unsubscribe_def)
  qed
  from once many gone noop show ?thesis by simp
qed

text \<open>
  Two callbacks are registered, the handle of the first is invoked, and invoked again:
  the second invocation finds no entry of its own and leaves the other entry alone.
\<close>

theorem unsubscribe_idempotent_witness:
  "subscribers (unsubscribe 0 (snd (onExistenceFilterMismatch (8 :: nat)
       (snd (onExistenceFilterMismatch 7 \<lparr>subscribers = [], nextId = 0\<rparr>))))) = [(1, 8)]
   \<and> unsubscribe 0 (unsubscribe 0 (snd (onExistenceFilterMismatch (8 :: nat)
       (snd (onExistenceFilterMismatch 7 \<lparr>subscribers = [], nextId = 0\<rparr>)))))
     = unsubscribe 0 (snd (onExistenceFilterMismatch (8 :: nat)
       (snd (onExistenceFilterMismatch 7 \<lparr>subscribers = [], nextId = 0\<rparr>))))"
  using unsubscribe_idempotent
          [of 0 "unsubscribe 0 (snd (onExistenceFilterMismatch (8 :: nat)
                   (snd (onExistenceFilterMismatch 7 \<lparr>subscribers = [], nextId = 0\<rparr>))))" 0]
  by (simp add: unsubscribe_def onExistenceFilterMismatch_def)

end
